theory Spec2Isabelle
  imports Main
begin

section \<open>editorconfig-cli: the orchestration of \<open>index.js\<close>\<close>

text \<open>
  \<open>index.js\<close> parses the command line, builds a settings object, compiles the exclusion
  patterns, and then either handles the positional arguments or falls back to a JSON
  manifest. File system, glob engine, regular expressions, JSON parser and the lintspaces
  validator are external: they are fields of an environment record. Everything the
  script does to the outside world is recorded as an event of a trace, in program order.
  The callbacks of \<open>lstat\<close> and of the glob promises run from the event loop in an order
  the script does not fix: the loop takes the order as a parameter, and what is proved
  about a run is proved for every order.
\<close>

subsection \<open>Data\<close>

datatype json =
    JNull
  | JBool bool
  | JNum int
  | JStr string
  | JArr "json list"
  | JObj "(string \<times> json) list"

text \<open>
  One entry of a lintspaces report (\<open>err.line\<close>, \<open>err.message\<close>, \<open>err.type\<close>).
  A report maps a file name to an object that maps a line to an array of entries; both
  objects are kept as association lists in the order in which \<open>Object.entries\<close> yields
  them, which is the order \<open>printReport\<close> walks them in.
\<close>

record violation =
  line :: int
  message :: string
  type :: string

type_synonym report = "(string \<times> (string \<times> violation list) list) list"

text \<open>
  \<open>program.ignores\<close>: the default array of profile names, the string given with \<open>-i\<close>
  (the option has no processing function, so a given value replaces the default), or
  \<open>undefined\<close>.
\<close>

datatype ignores_value = IgnoreProfiles "string list" | IgnoreGiven string | IgnoreUndefined

record settings =
  editorconfig :: string
  ignores :: ignores_value
  json :: string
  exclude :: "string list"

text \<open>
  The command line as commander reads it: the values of every occurrence of
  \<open>-e\<close> and \<open>-x\<close> in order (both options have a processing function, called once per
  occurrence), the last value of \<open>-i\<close> and \<open>-j\<close>, whether \<open>-v\<close>/\<open>--verbose\<close> occurs in
  \<open>process.argv\<close>, and the positional arguments \<open>program.args\<close>.
\<close>

record cli =
  opt_editorconfig :: "string list"
  opt_ignores :: "string option"
  opt_json :: "string option"
  opt_exclude :: "string list"
  verbose :: bool
  args :: "string list"

text \<open>
  The outside world. An \<open>Inl\<close> is the error the call fails with.
  \<^item> \<open>pathResolve\<close>: \<open>path.resolve\<close> against the working directory;
  \<^item> \<open>existsSync\<close>: \<open>fs.existsSync\<close>;
  \<^item> \<open>lstat\<close>: \<open>fs.lstat\<close>, reduced to \<open>stat.isDirectory()\<close>;
  \<^item> \<open>glob\<close>: \<open>glob(pattern, {gitignore: true})\<close>, a rejection or the matched files;
  \<^item> \<open>readFile\<close>: \<open>fs.readFile(path, "utf8", ...)\<close> on a string path;
  \<^item> \<open>JSON_parse\<close>: \<open>JSON.parse\<close>;
  \<^item> \<open>RegExp\<close>: \<open>new RegExp(source)\<close>, a SyntaxError or the \<open>test\<close> method of
    the compiled expression (no flags, so \<open>test\<close> keeps no state);
  \<^item> \<open>Validator\<close>: \<open>new Validator(settings)\<close>, \<open>validate(path)\<close> and
    \<open>getInvalidFiles()\<close> of lintspaces, an exception or the report;
  \<^item> \<open>types_WARNING\<close>: the value of the expression \<open>types.WARNING\<close>, where \<open>types\<close> is
    the namespace object of \<open>import * as types from "lintspaces/src/constants/types.js"\<close>;
    \<open>None\<close> is \<open>undefined\<close>. The file is a CommonJS module, and the namespace object of
    such a module has the export \<open>default\<close> and those named exports that Node finds by
    static analysis, so the value depends on how lintspaces writes its file;
  \<^item> \<open>storeOptionsAsProperties\<close>: whether commander keeps the value of an option as a
    property of \<open>program\<close>, which is where the script reads them (\<open>program.exclude\<close>, ...).
    commander up to version 6 does; from version 7 on it does so only after
    \<open>storeOptionsAsProperties()\<close>, which the script does not call, and the properties
    are \<open>undefined\<close>.
\<close>

record env =
  pathResolve :: "string \<Rightarrow> string"
  existsSync :: "string \<Rightarrow> bool"
  lstat :: "string \<Rightarrow> string + bool"
  glob :: "string \<Rightarrow> string + string list"
  readFile :: "string \<Rightarrow> string + string"
  JSON_parse :: "string \<Rightarrow> string + json"
  RegExp :: "string \<Rightarrow> string + (string \<Rightarrow> bool)"
  Validator :: "settings \<Rightarrow> string \<Rightarrow> string + report"
  types_WARNING :: "string option"
  storeOptionsAsProperties :: bool

subsection \<open>Events\<close>

datatype level = Fatal | Info | Error | Debug

datatype msg =
    SpecifiedMissing string
  | UsingEditorconfig string
  | UsingSettings settings
  | PassedArgs "string list"
  | FileHeader string
  | LineReport int string string bool
  | Loading string
  | Validating string
  | Testing string string
  | Excluded string
  | CallingGlob string
  | ReadingGlobs string
  | NothingToDo
  | LoadedGlobs string json
  | FailedJson string

text \<open>
  \<open>LineReport line message type warn\<close> is the line
  \<open>Line: %s %s [%s]\<close>; \<open>warn\<close> says that the type is printed red (else green).
\<close>

datatype event =
    ExistsSync string
  | LstatCall string
  | GlobCall string
  | ReadFileCall "string option"
  | ValidatorCall string
  | HelpCall
  | Log level msg

text \<open>An asynchronous operation that was started and whose callback has not run yet.\<close>

datatype task = TLstat string | TGlob string

text \<open>
  How a piece of synchronous code ends: it returns, it calls \<open>process.exit\<close>, or it
  throws an exception nobody catches.
\<close>

datatype 'a completion = Normal 'a | ProcessExit nat | Uncaught string

text \<open>
  How the process ends: with an exit code given to \<open>process.exit\<close>, or killed by an
  uncaught exception.
\<close>

datatype outcome = Exited nat | Crashed string

subsection \<open>Constants\<close>

definition DEFAULT_EDITORCONFIG_NAME :: string where
  "DEFAULT_EDITORCONFIG_NAME = ''.editorconfig''"

definition JSON_CONFIG_PROPERTY_NAME :: string where
  "JSON_CONFIG_PROPERTY_NAME = ''editorconfig-cli''"

definition DEFAULT_JSON_FILENAME :: string where
  "DEFAULT_JSON_FILENAME = ''package.json''"

subsection \<open>Logging and path resolution\<close>

definition log_debug :: "bool \<Rightarrow> msg \<Rightarrow> event list" where
  "log_debug v m = (if v then [Log Debug m] else [])"

text \<open>A JavaScript string is falsy exactly when it is empty; \<open>null\<close> is falsy.\<close>

fun truthy :: "string option \<Rightarrow> bool" where
  "truthy None = False"
| "truthy (Some s) = (s \<noteq> [])"

definition resolve :: "env \<Rightarrow> string \<Rightarrow> event list \<times> string option" where
  "resolve E filename =
     (let resolved = pathResolve E filename
      in ([ExistsSync resolved], if existsSync E resolved then Some resolved else None))"

text \<open>
  \<open>log.fatal\<close> prints and calls \<open>process.exit(1)\<close>, which does not return: the
  \<open>return null\<close> behind it is never reached.
\<close>

definition checkEditorConfig :: "env \<Rightarrow> string \<Rightarrow> event list \<times> string completion" where
  "checkEditorConfig E filename =
     (case resolve E filename of (evs, filePath) \<Rightarrow>
        if \<not> truthy filePath
        then (evs @ [Log Fatal (SpecifiedMissing filename)], ProcessExit 1)
        else (evs @ [Log Info (UsingEditorconfig (the filePath))], Normal filename))"

definition collect :: "string \<Rightarrow> string list \<Rightarrow> string list" where
  "collect v memo = memo @ [v]"

subsection \<open>Option parsing and settings\<close>

text \<open>
  commander calls the processing function of an option once per occurrence, in
  command-line order, with the value and the previous value of the option (its default
  at first), and keeps what the function returns as the value of the option.
\<close>

fun parse_editorconfig ::
  "env \<Rightarrow> string list \<Rightarrow> string option \<Rightarrow> event list \<times> string option completion" where
  "parse_editorconfig E [] cur = ([], Normal cur)"
| "parse_editorconfig E (f # fs) cur =
     (case checkEditorConfig E f of
        (evs, Normal v) \<Rightarrow>
          (case parse_editorconfig E fs (Some v) of (evs', r) \<Rightarrow> (evs @ evs', r))
      | (evs, ProcessExit c) \<Rightarrow> (evs, ProcessExit c)
      | (evs, Uncaught e) \<Rightarrow> (evs, Uncaught e))"

definition parse_exclude :: "string list \<Rightarrow> string list" where
  "parse_exclude xs = foldl (\<lambda>memo v. collect v memo) [''/normalize.*''] xs"

definition parse_ignores :: "string option \<Rightarrow> ignores_value" where
  "parse_ignores i =
     (case i of None \<Rightarrow> IgnoreProfiles [''js-comments'', ''html-comments'']
      | Some s \<Rightarrow> IgnoreGiven s)"

text \<open>
  What the script reads as a property of \<open>program\<close>: the value commander holds for the
  option if it keeps option values as properties, \<open>undefined\<close> otherwise.
\<close>

definition program_property :: "env \<Rightarrow> 'a option \<Rightarrow> 'a option" where
  "program_property E held = (if storeOptionsAsProperties E then held else None)"

text \<open>
  \<open>program.editorconfig || checkEditorConfig(DEFAULT_EDITORCONFIG_NAME)\<close>,
  \<open>program.ignores\<close>, \<open>program.json || DEFAULT_JSON_FILENAME\<close> and
  \<open>program.exclude || []\<close>; the argument is the value commander holds for
  \<open>--editorconfig\<close> after parsing.
\<close>

definition make_settings ::
  "env \<Rightarrow> cli \<Rightarrow> string option \<Rightarrow> event list \<times> settings completion" where
  "make_settings E c held_editorconfig =
     (case (if truthy (program_property E held_editorconfig)
            then ([], Normal (the (program_property E held_editorconfig)))
            else checkEditorConfig E DEFAULT_EDITORCONFIG_NAME) of
        (evs, Normal ec) \<Rightarrow>
          (evs, Normal \<lparr>editorconfig = ec,
                        ignores =
                          (case program_property E (Some (parse_ignores (opt_ignores c))) of
                             None \<Rightarrow> IgnoreUndefined
                           | Some i \<Rightarrow> i),
                        json = (if truthy (program_property E (opt_json c))
                                then the (program_property E (opt_json c))
                                else DEFAULT_JSON_FILENAME),
                        exclude =
                          (case program_property E (Some (parse_exclude (opt_exclude c))) of
                             None \<Rightarrow> []
                           | Some xs \<Rightarrow> xs)\<rparr>)
      | (evs, ProcessExit n) \<Rightarrow> (evs, ProcessExit n)
      | (evs, Uncaught e) \<Rightarrow> (evs, Uncaught e))"

subsection \<open>The report printer\<close>

text \<open>
  \<open>String.prototype.toLowerCase\<close> on the ASCII letters; other characters are left as they
  are. Its only use is the comparison with \<open>types.WARNING\<close>.
\<close>

definition lower_char :: "char \<Rightarrow> char" where
  "lower_char c =
     (case map_of (zip ''ABCDEFGHIJKLMNOPQRSTUVWXYZ'' ''abcdefghijklmnopqrstuvwxyz'') c of
        Some l \<Rightarrow> l
      | None \<Rightarrow> c)"

definition toLowerCase :: "string \<Rightarrow> string" where
  "toLowerCase s = map lower_char s"

text \<open>
  The three nested loops of \<open>printReport\<close>, innermost first; \<open>exitCode\<close> is threaded.
  \<open>warn\<close> is \<open>type.toLowerCase() === types.WARNING\<close>: a string is never \<open>undefined\<close>.
\<close>

fun print_line :: "env \<Rightarrow> violation list \<Rightarrow> nat \<Rightarrow> event list \<times> nat" where
  "print_line E [] exitCode = ([], exitCode)"
| "print_line E (err # errs) exitCode =
     (let warn = (Some (toLowerCase (type err)) = types_WARNING E)
      in case print_line E errs (if warn then 1 else exitCode) of
           (evs, exitCode') \<Rightarrow>
             (Log Error (LineReport (line err) (message err) (type err) warn) # evs, exitCode'))"

fun print_info ::
  "env \<Rightarrow> (string \<times> violation list) list \<Rightarrow> nat \<Rightarrow> event list \<times> nat" where
  "print_info E [] exitCode = ([], exitCode)"
| "print_info E ((k, ln) # rest) exitCode =
     (case print_line E ln exitCode of
        (evs, exitCode') \<Rightarrow>
          (case print_info E rest exitCode' of
             (evs', exitCode'') \<Rightarrow> (evs @ evs', exitCode'')))"

fun printReport :: "env \<Rightarrow> report \<Rightarrow> nat \<Rightarrow> event list \<times> nat" where
  "printReport E [] exitCode = ([], exitCode)"
| "printReport E ((filename, info) # rest) exitCode =
     (case print_info E info exitCode of
        (evs, exitCode') \<Rightarrow>
          (case printReport E rest exitCode' of
             (evs', exitCode'') \<Rightarrow> (Log Error (FileHeader filename) # evs @ evs', exitCode'')))"

subsection \<open>Validation and the exclusion filter\<close>

text \<open>\<open>validate\<close> up to the call of \<open>lstat\<close>: the callback runs later, from the event loop.\<close>

definition validate :: "bool \<Rightarrow> string \<Rightarrow> event list \<times> task list" where
  "validate v filePath = (log_debug v (Loading filePath) @ [LstatCall filePath], [TLstat filePath])"

text \<open>
  The callback of \<open>lstat\<close>. An exception thrown here has no handler. It returns the new
  \<open>exitCode\<close>.
\<close>

definition lstat_callback ::
  "env \<Rightarrow> bool \<Rightarrow> settings \<Rightarrow> string \<Rightarrow> nat \<Rightarrow> event list \<times> nat completion" where
  "lstat_callback E v S filePath exitCode =
     (case lstat E filePath of
        Inl err \<Rightarrow> ([], Uncaught err)
      | Inr isDirectory \<Rightarrow>
          if \<not> isDirectory then
            (case Validator E S filePath of
               Inl e \<Rightarrow> (log_debug v (Validating filePath) @ [ValidatorCall filePath], Uncaught e)
             | Inr rep \<Rightarrow>
                 (case printReport E rep exitCode of
                    (evs, exitCode') \<Rightarrow>
                      (log_debug v (Validating filePath) @ [ValidatorCall filePath] @ evs,
                       Normal exitCode')))
          else ([], Normal exitCode))"

text \<open>A compiled exclusion pattern: its source (for \<open>toString\<close>) and its \<open>test\<close>.\<close>

type_synonym regexp = "string \<times> (string \<Rightarrow> bool)"

text \<open>\<open>settings.exclude.map(...)\<close>: the first pattern that does not compile throws.\<close>

fun excludes_of :: "env \<Rightarrow> string list \<Rightarrow> string + regexp list" where
  "excludes_of E [] = Inr []"
| "excludes_of E (r # rs) =
     (case RegExp E r of
        Inl e \<Rightarrow> Inl e
      | Inr t \<Rightarrow> (case excludes_of E rs of Inl e \<Rightarrow> Inl e | Inr ts \<Rightarrow> Inr ((r, t) # ts)))"

text \<open>\<open>excludes.some(...)\<close> in \<open>onFile\<close>: it stops at the first pattern that matches.\<close>

fun some_exclude :: "bool \<Rightarrow> regexp list \<Rightarrow> string \<Rightarrow> event list \<times> bool" where
  "some_exclude v [] myPath = ([], False)"
| "some_exclude v (ex # rest) myPath =
     (let excluded = snd ex myPath
      in if excluded
         then (log_debug v (Testing myPath (fst ex)) @ [Log Info (Excluded myPath)], True)
         else (case some_exclude v rest myPath of
                 (evs, b) \<Rightarrow> (log_debug v (Testing myPath (fst ex)) @ evs, b)))"

definition onFile :: "bool \<Rightarrow> regexp list \<Rightarrow> string \<Rightarrow> event list \<times> task list" where
  "onFile v excludes file =
     (case some_exclude v excludes file of
        (evs, matches) \<Rightarrow>
          if \<not> matches then (case validate v file of (evs', ts) \<Rightarrow> (evs @ evs', ts))
          else (evs, []))"

text \<open>\<open>files.forEach(onFile)\<close>.\<close>

fun forEach_onFile :: "bool \<Rightarrow> regexp list \<Rightarrow> string list \<Rightarrow> event list \<times> task list" where
  "forEach_onFile v excludes [] = ([], [])"
| "forEach_onFile v excludes (f # fs) =
     (case onFile v excludes f of
        (evs, ts) \<Rightarrow>
          (case forEach_onFile v excludes fs of (evs', ts') \<Rightarrow> (evs @ evs', ts @ ts')))"

text \<open>
  The two handlers given to \<open>then\<close>. The rejection handler rethrows, and nothing handles
  the promise \<open>then\<close> returns: the rejection is uncaught.
\<close>

definition glob_then ::
  "env \<Rightarrow> bool \<Rightarrow> regexp list \<Rightarrow> string \<Rightarrow> event list \<times> task list completion" where
  "glob_then E v excludes pattern =
     (case glob E pattern of
        Inl err \<Rightarrow> ([], Uncaught err)
      | Inr files \<Rightarrow> (case forEach_onFile v excludes files of (evs, ts) \<Rightarrow> (evs, Normal ts)))"

subsection \<open>The input expander\<close>

text \<open>
  \<open>processInput\<close> gets the positional arguments (strings) or whatever the manifest holds
  under its property, so the items are JavaScript values. \<open>path.resolve\<close> throws a
  TypeError on an item that is not a string. The result is the events, the operations
  started, and the exception that ended the loop, if any.
\<close>

fun processInput :: "env \<Rightarrow> bool \<Rightarrow> json list \<Rightarrow> event list \<times> task list \<times> string option" where
  "processInput E v [] = ([], [], None)"
| "processInput E v (JStr it # rest) =
     (case resolve E it of
        (evs, resolved) \<Rightarrow>
          (case (if truthy resolved then validate v (the resolved)
                 else (log_debug v (CallingGlob it) @ [GlobCall it], [TGlob it])) of
             (evs', ts) \<Rightarrow>
               (case processInput E v rest of
                  (evs'', ts', thrown) \<Rightarrow> (evs @ evs' @ evs'', ts @ ts', thrown))))"
| "processInput E v (other # rest) = ([], [], Some ''TypeError [ERR_INVALID_ARG_TYPE]'')"

subsection \<open>The event loop\<close>

text \<open>
  The callback of a pending operation: the events, and on a normal return the new
  \<open>exitCode\<close> and the operations it started.
\<close>

fun callback ::
  "env \<Rightarrow> bool \<Rightarrow> settings \<Rightarrow> regexp list \<Rightarrow> task \<Rightarrow> nat \<Rightarrow>
   event list \<times> (nat \<times> task list) completion" where
  "callback E v S excludes (TLstat p) exitCode =
     (case lstat_callback E v S p exitCode of
        (evs, Normal exitCode') \<Rightarrow> (evs, Normal (exitCode', []))
      | (evs, ProcessExit n) \<Rightarrow> (evs, ProcessExit n)
      | (evs, Uncaught e) \<Rightarrow> (evs, Uncaught e))"
| "callback E v S excludes (TGlob g) exitCode =
     (case glob_then E v excludes g of
        (evs, Normal ts) \<Rightarrow> (evs, Normal (exitCode, ts))
      | (evs, ProcessExit n) \<Rightarrow> (evs, ProcessExit n)
      | (evs, Uncaught e) \<Rightarrow> (evs, Uncaught e))"

text \<open>
  An upper bound of the callbacks a pending operation stands for: itself, and for a glob
  one \<open>lstat\<close> per matched file.
\<close>

fun weight :: "env \<Rightarrow> task \<Rightarrow> nat" where
  "weight E (TLstat p) = 1"
| "weight E (TGlob g) = Suc (case glob E g of Inl err \<Rightarrow> 0 | Inr files \<Rightarrow> length files)"

text \<open>
  The event loop. Operations complete in no fixed order: \<open>sched\<close> picks, from the pending
  ones, the one whose callback runs next. An uncaught exception ends the process at once.
  When nothing is pending, \<open>beforeExit\<close> fires and the listener calls
  \<open>process.exit(exitCode)\<close>.
\<close>

function run_loop ::
  "env \<Rightarrow> bool \<Rightarrow> settings \<Rightarrow> regexp list \<Rightarrow> (task list \<Rightarrow> nat) \<Rightarrow> task list \<Rightarrow> nat \<Rightarrow>
   outcome \<times> event list" where
  "run_loop E v S excludes sched [] exitCode = (Exited exitCode, [])"
| "run_loop E v S excludes sched (t # ts) exitCode =
     (let i = sched (t # ts) mod length (t # ts)
      in case callback E v S excludes ((t # ts) ! i) exitCode of
           (evs, Normal (exitCode', new)) \<Rightarrow>
             (case run_loop E v S excludes sched
                     (take i (t # ts) @ drop (Suc i) (t # ts) @ new) exitCode' of
                (out, evs') \<Rightarrow> (out, evs @ evs'))
         | (evs, ProcessExit n) \<Rightarrow> (Exited n, evs)
         | (evs, Uncaught e) \<Rightarrow> (Crashed e, evs))"
  by pat_completeness auto

text \<open>The loop ends: every callback takes one pending operation and leaves less weight.\<close>

lemma sum_list_remove_nth:
  fixes f :: "'a \<Rightarrow> nat"
  shows "i < length q \<Longrightarrow>
    sum_list (map f (take i q @ drop (Suc i) q)) + f (q ! i) = sum_list (map f q)"
proof (induction q arbitrary: i)
  case Nil
  then show ?case by simp
next
  case (Cons a q)
  show ?case
  proof (cases i)
    case 0
    then show ?thesis by simp
  next
    case (Suc n)
    then have "n < length q" using Cons.prems by simp
    from Cons.IH[OF this] show ?thesis using Suc by simp
  qed
qed

lemma forEach_onFile_weight:
  "sum_list (map (weight E) (snd (forEach_onFile v ex fs))) \<le> length fs"
  by (induction fs) (auto simp: onFile_def validate_def split: prod.splits)

lemma callback_weight:
  assumes "callback E v S ex t c = (evs, Normal (c', new))"
  shows "sum_list (map (weight E) new) < weight E t"
proof (cases t)
  case (TLstat p)
  then show ?thesis
    using assms by (auto split: prod.splits completion.splits)
next
  case (TGlob g)
  then obtain files where g: "glob E g = Inr files" and new: "new = snd (forEach_onFile v ex files)"
    using assms by (auto simp: glob_then_def split: prod.splits completion.splits sum.splits)
  show ?thesis
    using forEach_onFile_weight[of E v ex files] by (simp add: TGlob g new)
qed

lemma run_loop_decreases:
  assumes "(evs, Normal x1) = callback E v S ex (q ! i) c" and "(c', new) = x1"
    and "i < length q"
  shows "sum_list (map (weight E) (take i q @ drop (Suc i) q @ new))
    < sum_list (map (weight E) q)"
proof -
  have "sum_list (map (weight E) new) < weight E (q ! i)"
    using assms(1,2) callback_weight[of E v S ex "q ! i" c evs c' new] by simp
  moreover have "sum_list (map (weight E) (take i q @ drop (Suc i) q)) + weight E (q ! i)
      = sum_list (map (weight E) q)"
    using assms(3) by (rule sum_list_remove_nth)
  ultimately show ?thesis by simp
qed

termination run_loop
  apply (relation "measure (\<lambda>(E, v, S, ex, sched, q, c). sum_list (map (weight E) q))")
   apply simp
  apply (simp only: in_measure prod.case)
  apply (erule (1) run_loop_decreases)
  apply simp
  done

subsection \<open>The manifest\<close>

text \<open>
  \<open>JSON.parse(data)[JSON_CONFIG_PROPERTY_NAME]\<close>: a TypeError on \<open>null\<close>, the property
  of an object (the association list holds its own properties, each key once), and
  \<open>undefined\<close> (\<open>None\<close>) on every other value, none of which has a property of that name.
\<close>

fun get_config_property :: "json \<Rightarrow> string + json option" where
  "get_config_property JNull = Inl ''TypeError''"
| "get_config_property (JObj kvs) = Inr (map_of kvs JSON_CONFIG_PROPERTY_NAME)"
| "get_config_property other = Inr None"

text \<open>\<open>!patterns\<close>.\<close>

fun falsy :: "json option \<Rightarrow> bool" where
  "falsy None = True"
| "falsy (Some JNull) = True"
| "falsy (Some (JBool b)) = (\<not> b)"
| "falsy (Some (JNum n)) = (n = 0)"
| "falsy (Some (JStr s)) = (s = [])"
| "falsy (Some other) = False"

text \<open>\<open>patterns.length === 0\<close>.\<close>

fun length_is_0 :: "json \<Rightarrow> bool" where
  "length_is_0 (JArr xs) = (xs = [])"
| "length_is_0 (JStr s) = (s = [])"
| "length_is_0 (JObj kvs) = (map_of kvs ''length'' = Some (JNum 0))"
| "length_is_0 other = False"

text \<open>
  What \<open>for (const it of patterns)\<close> walks through: the elements of an array, the
  characters of a string (one per \<open>char\<close> here), and, by the iterator the script installs
  on \<open>Object.prototype\<close>, the \<open>[key, value]\<close> entries of any other value (none for a
  number or a boolean).
\<close>

fun iterate :: "json \<Rightarrow> json list" where
  "iterate (JArr xs) = xs"
| "iterate (JStr s) = map (\<lambda>c. JStr [c]) s"
| "iterate (JObj kvs) = map (\<lambda>(k, x). JArr [JStr k, x]) kvs"
| "iterate other = []"

text \<open>
  The callback of \<open>readFile\<close>. Whatever is thrown inside \<open>try\<close> is caught and logged;
  \<open>program.help()\<close> prints the usage and exits the process with code 0.
\<close>

definition readFile_callback ::
  "env \<Rightarrow> bool \<Rightarrow> string \<Rightarrow> event list \<times> task list completion" where
  "readFile_callback E v found =
     (case readFile E found of
        Inl err \<Rightarrow> (log_debug v (ReadingGlobs found) @ [Log Error (FailedJson err)], Normal [])
      | Inr data \<Rightarrow>
          (case JSON_parse E data of
             Inl e \<Rightarrow> (log_debug v (ReadingGlobs found) @ [Log Error (FailedJson e)], Normal [])
           | Inr parsed \<Rightarrow>
               (case get_config_property parsed of
                  Inl e \<Rightarrow>
                    (log_debug v (ReadingGlobs found) @ [Log Error (FailedJson e)], Normal [])
                | Inr patterns \<Rightarrow>
                    if falsy patterns \<or> length_is_0 (the patterns)
                    then (log_debug v (ReadingGlobs found) @ [Log Info NothingToDo, HelpCall],
                          ProcessExit 0)
                    else
                      (case processInput E v (iterate (the patterns)) of
                         (evs, ts, thrown) \<Rightarrow>
                           (log_debug v (ReadingGlobs found)
                              @ [Log Info (LoadedGlobs found (the patterns))] @ evs
                              @ (case thrown of None \<Rightarrow> []
                                 | Some e \<Rightarrow> [Log Error (FailedJson e)]),
                            Normal ts)))))"

subsection \<open>The script\<close>

text \<open>
  The last statement of the script, \<open>if (args.length === 0) ... else ...\<close>, and the event
  loop after it; \<open>program.args\<close> is an array, so \<open>args\<close> is \<open>program.args\<close>.
  \<open>resolve\<close> gives \<open>null\<close> for a manifest that does not exist, and
  \<open>fs.readFile\<close> validates its path argument before it starts reading: on \<open>null\<close> it throws
  a TypeError (ERR_INVALID_ARG_TYPE) to its caller, here the top level of the script.
\<close>

definition dispatch ::
  "env \<Rightarrow> cli \<Rightarrow> settings \<Rightarrow> regexp list \<Rightarrow> (task list \<Rightarrow> nat) \<Rightarrow> outcome \<times> event list" where
  "dispatch E c S excludes sched =
     (if args c = [] then
        (case resolve E (json S) of
           (evs, found) \<Rightarrow>
             (case found of
                None \<Rightarrow> (Crashed ''TypeError [ERR_INVALID_ARG_TYPE]'', evs @ [ReadFileCall None])
              | Some f \<Rightarrow>
                  (case readFile_callback E (verbose c) f of
                     (evs', Normal ts) \<Rightarrow>
                       (case run_loop E (verbose c) S excludes sched ts 0 of
                          (out, evs'') \<Rightarrow> (out, evs @ [ReadFileCall found] @ evs' @ evs''))
                   | (evs', ProcessExit n) \<Rightarrow> (Exited n, evs @ [ReadFileCall found] @ evs')
                   | (evs', Uncaught e) \<Rightarrow> (Crashed e, evs @ [ReadFileCall found] @ evs'))))
      else
        (case processInput E (verbose c) (map JStr (args c)) of
           (evs, ts, thrown) \<Rightarrow>
             (case thrown of
                Some e \<Rightarrow> (Crashed e, evs)
              | None \<Rightarrow>
                  (case run_loop E (verbose c) S excludes sched ts 0 of
                     (out, evs') \<Rightarrow> (out, evs @ evs')))))"

text \<open>The whole script: how the process ends, and the trace of what it did.\<close>

definition main :: "env \<Rightarrow> cli \<Rightarrow> (task list \<Rightarrow> nat) \<Rightarrow> outcome \<times> event list" where
  "main E c sched =
     (case parse_editorconfig E (opt_editorconfig c) None of
        (evs1, ProcessExit n) \<Rightarrow> (Exited n, evs1)
      | (evs1, Uncaught e) \<Rightarrow> (Crashed e, evs1)
      | (evs1, Normal program_editorconfig) \<Rightarrow>
          (case make_settings E c program_editorconfig of
             (evs2, ProcessExit n) \<Rightarrow> (Exited n, evs1 @ evs2)
           | (evs2, Uncaught e) \<Rightarrow> (Crashed e, evs1 @ evs2)
           | (evs2, Normal S) \<Rightarrow>
               (case excludes_of E (exclude S) of
                  Inl e \<Rightarrow>
                    (Crashed e,
                     evs1 @ evs2 @ log_debug (verbose c) (UsingSettings S)
                       @ log_debug (verbose c) (PassedArgs (args c)))
                | Inr excludes \<Rightarrow>
                    (case dispatch E c S excludes sched of
                       (out, evs3) \<Rightarrow>
                         (out,
                          evs1 @ evs2 @ log_debug (verbose c) (UsingSettings S)
                            @ log_debug (verbose c) (PassedArgs (args c)) @ evs3)))))"

subsection \<open>Reading a trace\<close>

text \<open>A printed report line whose type is printed red, as a warning.\<close>

fun warning_line :: "event \<Rightarrow> bool" where
  "warning_line (Log lv (LineReport l m t w)) = w"
| "warning_line e = False"

definition warning_printed :: "event list \<Rightarrow> bool" where
  "warning_printed tr = list_ex warning_line tr"

fun fatal_line :: "event \<Rightarrow> bool" where
  "fatal_line (Log Fatal m) = True"
| "fatal_line e = False"

definition fatal_logged :: "event list \<Rightarrow> bool" where
  "fatal_logged tr = list_ex fatal_line tr"

text \<open>A step of validation: a \<open>stat\<close>, a glob expansion, or a call of the validator.\<close>

fun validation_attempt :: "event \<Rightarrow> bool" where
  "validation_attempt (LstatCall p) = True"
| "validation_attempt (GlobCall g) = True"
| "validation_attempt (ValidatorCall p) = True"
| "validation_attempt e = False"

text \<open>What option parsing and the construction of the settings can do.\<close>

fun setup_event :: "event \<Rightarrow> bool" where
  "setup_event (ExistsSync p) = True"
| "setup_event (Log lv (SpecifiedMissing f)) = True"
| "setup_event (Log lv (UsingEditorconfig f)) = True"
| "setup_event (Log lv (UsingSettings S)) = True"
| "setup_event (Log lv (PassedArgs as)) = True"
| "setup_event e = False"

text \<open>What \<open>processInput\<close> can do.\<close>

fun input_event :: "event \<Rightarrow> bool" where
  "input_event (ExistsSync p) = True"
| "input_event (LstatCall p) = True"
| "input_event (GlobCall g) = True"
| "input_event (Log lv (Loading p)) = True"
| "input_event (Log lv (CallingGlob g)) = True"
| "input_event e = False"

text \<open>What the callback of \<open>readFile\<close> can do.\<close>

fun manifest_event :: "event \<Rightarrow> bool" where
  "manifest_event (Log lv (ReadingGlobs f)) = True"
| "manifest_event (Log lv NothingToDo) = True"
| "manifest_event (Log lv (LoadedGlobs f p)) = True"
| "manifest_event (Log lv (FailedJson e)) = True"
| "manifest_event HelpCall = True"
| "manifest_event e = input_event e"

text \<open>
  What the callbacks of the event loop can do; the validator is only ever called on a
  path whose \<open>stat\<close> did not report a directory, and a report line is red only if its
  type in lower case is \<open>types.WARNING\<close>.
\<close>

fun loop_event :: "env \<Rightarrow> event \<Rightarrow> bool" where
  "loop_event E (LstatCall p) = True"
| "loop_event E (ValidatorCall p) = (lstat E p = Inr False)"
| "loop_event E (Log lv (SpecifiedMissing f)) = False"
| "loop_event E (Log lv (LineReport l m t w)) = (w = (Some (toLowerCase t) = types_WARNING E))"
| "loop_event E (Log lv m) = True"
| "loop_event E e = False"

text \<open>\<open>resolved\<close> is truthy in \<open>processInput\<close>: the argument names an existing path.\<close>

definition resolves :: "env \<Rightarrow> string \<Rightarrow> bool" where
  "resolves E it = truthy (snd (resolve E it))"

text \<open>The call \<open>processInput\<close> makes for one argument.\<close>

definition call_for :: "env \<Rightarrow> string \<Rightarrow> event" where
  "call_for E it = (if resolves E it then LstatCall (pathResolve E it) else GlobCall it)"

fun is_call :: "event \<Rightarrow> bool" where
  "is_call (LstatCall p) = True"
| "is_call (GlobCall g) = True"
| "is_call e = False"

subsection \<open>A sample working directory\<close>

fun starts_with :: "string \<Rightarrow> string \<Rightarrow> bool" where
  "starts_with [] s = True"
| "starts_with (c # cs) [] = False"
| "starts_with (c # cs) (d # ds) = (c = d \<and> starts_with cs ds)"

fun contains :: "string \<Rightarrow> string \<Rightarrow> bool" where
  "contains pat [] = (pat = [])"
| "contains pat (c # cs) = (starts_with pat (c # cs) \<or> contains pat cs)"

text \<open>
  A directory \<open>/w\<close> with \<open>.editorconfig\<close>, \<open>package.json\<close> (the text \<open>{}\<close>),
  \<open>README.md\<close>, \<open>normalize.css\<close> and a directory \<open>src\<close> holding \<open>a.js\<close>, \<open>normalize.css\<close>
  and a directory \<open>lib\<close>. The validator finds one violation, of type \<open>warning\<close>, in
  \<open>src/a.js\<close>. The only pattern the sample \<open>RegExp\<close> knows is the default one,
  \<open>/normalize.*\<close>, which matches the strings that contain \<open>/normalize\<close>.

  The installation is a current one: commander (7 or later) does not keep option values
  as properties of \<open>program\<close>, and \<open>types.WARNING\<close> is \<open>undefined\<close>, because lintspaces'
  \<open>types.js\<close> assigns \<open>{WARNING: 'warning', HINT: 'hint'}\<close> to \<open>module.exports\<close> and
  Node finds no named export in an object literal whose values are string literals
  (the string is \<open>types.default.WARNING\<close>).
\<close>

definition sample_report :: "string \<Rightarrow> string \<Rightarrow> report" where
  "sample_report f t = [(f, [(''3'', [\<lparr>line = 3, message = ''Unexpected tabs'', type = t\<rparr>])])]"

definition world :: env where
  "world =
     \<lparr>pathResolve = (\<lambda>f. if starts_with ''/'' f then f else ''/w/'' @ f),
      existsSync = (\<lambda>p. p \<in> set [''/w/.editorconfig'', ''/w/package.json'', ''/w/README.md'',
                                   ''/w/normalize.css'', ''/w/src'']),
      lstat = (\<lambda>p. if p \<in> set [''/w/src'', ''src/lib''] then Inr True
                    else if p \<in> set [''/w/README.md'', ''/w/normalize.css'', ''/w/package.json'',
                                      ''src/a.js'', ''src/normalize.css'']
                    then Inr False else Inl ''ENOENT''),
      glob = (\<lambda>g. if g = ''src/*'' then Inr [''src/a.js'', ''src/lib'', ''src/normalize.css'']
                   else Inr []),
      readFile = (\<lambda>p. if p = ''/w/package.json'' then Inr ''{}'' else Inl ''ENOENT''),
      JSON_parse = (\<lambda>d. if d = ''{}'' then Inr (JObj []) else Inl ''SyntaxError''),
      RegExp = (\<lambda>src. if src = ''/normalize.*'' then Inr (contains ''/normalize'')
                       else Inl ''SyntaxError''),
      Validator = (\<lambda>S p. if p = ''src/a.js'' then Inr (sample_report ''/w/src/a.js'' ''warning'')
                          else Inr []),
      types_WARNING = None,
      storeOptionsAsProperties = False\<rparr>"

text \<open>
  The same directory and files with commander 5 or 6 installed, which keeps the option
  values as properties of \<open>program\<close>.
\<close>

definition legacy_world :: env where
  "legacy_world = world\<lparr>storeOptionsAsProperties := True\<rparr>"

text \<open>The same directory without \<open>.editorconfig\<close>, and without \<open>package.json\<close>.\<close>

definition world_without :: "string \<Rightarrow> env" where
  "world_without f = world\<lparr>existsSync := (\<lambda>p. p \<noteq> f \<and> existsSync world p)\<rparr>"

text \<open>No options, no arguments; and the scheduler that completes operations in order.\<close>

definition no_options :: cli where
  "no_options =
     \<lparr>opt_editorconfig = [], opt_ignores = None, opt_json = None, opt_exclude = [],
      verbose = False, args = []\<rparr>"

definition fifo :: "task list \<Rightarrow> nat" where
  "fifo q = 0"

definition lifo :: "task list \<Rightarrow> nat" where
  "lifo q = length q - 1"

section \<open>Properties\<close>

subsection \<open>Setup: option parsing and settings\<close>

lemma checkEditorConfig_cases:
  "checkEditorConfig E f =
     (if existsSync E (pathResolve E f) \<and> pathResolve E f \<noteq> []
      then ([ExistsSync (pathResolve E f), Log Info (UsingEditorconfig (pathResolve E f))], Normal f)
      else ([ExistsSync (pathResolve E f), Log Fatal (SpecifiedMissing f)], ProcessExit 1))"
  by (simp add: checkEditorConfig_def resolve_def Let_def)

lemma parse_editorconfig_events:
  "parse_editorconfig E fs cur = (evs, r) \<Longrightarrow> list_all setup_event evs"
  by (induction fs arbitrary: cur evs r)
    (auto simp: checkEditorConfig_cases split: prod.splits if_splits)

lemma parse_editorconfig_not_Normal:
  assumes "parse_editorconfig E fs cur = (evs, r)" and "\<forall>x. r \<noteq> Normal x"
  shows "r = ProcessExit 1 \<and> evs \<noteq> [] \<and> fatal_line (last evs)"
  using assms
proof (induction fs arbitrary: cur evs)
  case Nil
  then show ?case by auto
next
  case (Cons f fs)
  show ?case
  proof (cases "existsSync E (pathResolve E f) \<and> pathResolve E f \<noteq> []")
    case True
    then obtain evs' where rest: "parse_editorconfig E fs (Some f) = (evs', r)"
      and evs: "evs = [ExistsSync (pathResolve E f), Log Info (UsingEditorconfig (pathResolve E f))] @ evs'"
      using Cons.prems(1) by (auto simp: checkEditorConfig_cases split: prod.splits)
    from Cons.IH[OF rest Cons.prems(2)] show ?thesis by (simp add: evs)
  next
    case False
    then show ?thesis using Cons.prems(1) by (auto simp: checkEditorConfig_cases)
  qed
qed

lemma parse_editorconfig_missing:
  assumes "parse_editorconfig E fs cur = (evs, r)"
    and "f \<in> set fs" and "\<not> existsSync E (pathResolve E f)"
  shows "r \<noteq> Normal x"
  using assms
  by (induction fs arbitrary: cur evs)
    (auto simp: checkEditorConfig_cases split: prod.splits if_splits)

lemma make_settings_events:
  "make_settings E c pe = (evs, r) \<Longrightarrow> list_all setup_event evs"
  by (auto simp: make_settings_def checkEditorConfig_cases split: if_splits)

lemma make_settings_not_Normal:
  assumes "make_settings E c pe = (evs, r)" and "\<forall>x. r \<noteq> Normal x"
  shows "r = ProcessExit 1 \<and> evs \<noteq> [] \<and> fatal_line (last evs)"
  using assms by (auto simp: make_settings_def checkEditorConfig_cases split: if_splits)

subsection \<open>What the input expander starts\<close>

lemma processInput_strings:
  assumes "processInput E v (map JStr as) = (evs, ts, thrown)"
  shows "thrown = None \<and> list_all input_event evs \<and> filter is_call evs = map (call_for E) as
    \<and> ts = map (\<lambda>it. if resolves E it then TLstat (pathResolve E it) else TGlob it) as"
  using assms
  by (induction as arbitrary: evs ts thrown)
    (auto simp: resolve_def resolves_def call_for_def validate_def log_debug_def Let_def
      split: prod.splits if_splits)

lemma processInput_events:
  "processInput E v items = (evs, ts, thrown) \<Longrightarrow> list_all input_event evs"
  by (induction E v items arbitrary: evs ts thrown rule: processInput.induct)
    (auto simp: resolve_def validate_def log_debug_def Let_def split: prod.splits if_splits)

subsection \<open>Callbacks\<close>

lemma warning_printed_append [simp]:
  "warning_printed (xs @ ys) = (warning_printed xs \<or> warning_printed ys)"
  by (auto simp: warning_printed_def list_ex_iff)

lemma warning_printed_Nil [simp]: "warning_printed [] = False"
  by (simp add: warning_printed_def)

lemma warning_printed_Cons [simp]:
  "warning_printed (e # es) = (warning_line e \<or> warning_printed es)"
  by (simp add: warning_printed_def)

lemma print_line_exitCode:
  "print_line E errs c = (evs, c') \<Longrightarrow> c' = (if warning_printed evs then 1 else c)"
proof (induction errs arbitrary: c evs c')
  case Nil
  then show ?case by simp
next
  case (Cons err errs)
  define c0 where "c0 = (if Some (toLowerCase (type err)) = types_WARNING E then 1 else c)"
  obtain e1 c1 where 1: "print_line E errs c0 = (e1, c1)" by (cases "print_line E errs c0")
  have "evs = Log Error (LineReport (line err) (message err) (type err)
      (Some (toLowerCase (type err)) = types_WARNING E)) # e1" "c' = c1"
    using Cons.prems 1 by (simp_all add: Let_def c0_def)
  then show ?case using Cons.IH[OF 1] by (auto simp: c0_def)
qed

lemma print_info_exitCode:
  "print_info E info c = (evs, c') \<Longrightarrow> c' = (if warning_printed evs then 1 else c)"
proof (induction info arbitrary: c evs c')
  case Nil
  then show ?case by simp
next
  case (Cons kl rest)
  obtain k ln where kl: "kl = (k, ln)" by (cases kl)
  obtain e1 c1 where 1: "print_line E ln c = (e1, c1)" by (cases "print_line E ln c")
  obtain e2 c2 where 2: "print_info E rest c1 = (e2, c2)" by (cases "print_info E rest c1")
  have "evs = e1 @ e2" "c' = c2" using Cons.prems by (simp_all add: kl 1 2)
  then show ?case using print_line_exitCode[OF 1] Cons.IH[OF 2] by auto
qed

lemma printReport_exitCode:
  "printReport E rep c = (evs, c') \<Longrightarrow> c' = (if warning_printed evs then 1 else c)"
proof (induction rep arbitrary: c evs c')
  case Nil
  then show ?case by simp
next
  case (Cons fi rest)
  obtain f info where fi: "fi = (f, info)" by (cases fi)
  obtain e1 c1 where 1: "print_info E info c = (e1, c1)" by (cases "print_info E info c")
  obtain e2 c2 where 2: "printReport E rest c1 = (e2, c2)" by (cases "printReport E rest c1")
  have "evs = Log Error (FileHeader f) # e1 @ e2" "c' = c2"
    using Cons.prems by (simp_all add: fi 1 2)
  then show ?case using print_info_exitCode[OF 1] Cons.IH[OF 2] by auto
qed

lemma print_line_events: "list_all (loop_event E) (fst (print_line E errs c))"
  by (induction errs arbitrary: c) (simp_all add: Let_def split_beta)

lemma print_info_events: "list_all (loop_event E) (fst (print_info E info c))"
  by (induction info arbitrary: c) (auto simp: split_beta print_line_events)

lemma printReport_events: "list_all (loop_event E) (fst (printReport E rep c))"
  by (induction rep arbitrary: c) (auto simp: split_beta print_info_events)

lemma some_exclude_events: "list_all (loop_event E) (fst (some_exclude v ex p))"
  by (induction ex) (simp_all add: log_debug_def Let_def split_beta)

lemma onFile_events: "list_all (loop_event E) (fst (onFile v ex f))"
  by (simp add: onFile_def validate_def log_debug_def split_beta some_exclude_events)

lemma forEach_onFile_events: "list_all (loop_event E) (fst (forEach_onFile v ex fs))"
  by (induction fs) (simp_all add: split_beta onFile_events)

lemma some_exclude_no_warning: "\<not> warning_printed (fst (some_exclude v ex p))"
  by (induction ex) (simp_all add: log_debug_def Let_def split_beta)

lemma forEach_onFile_no_warning: "\<not> warning_printed (fst (forEach_onFile v ex fs))"
  by (induction fs)
    (simp_all add: split_beta onFile_def validate_def log_debug_def some_exclude_no_warning)

lemma callback_events: "list_all (loop_event E) (fst (callback E v S ex t c))"
proof (cases t)
  case (TLstat p)
  show ?thesis
    using printReport_events[of E]
    by (auto simp: TLstat lstat_callback_def log_debug_def split_beta
        split: sum.splits completion.splits)
next
  case (TGlob g)
  show ?thesis
    using forEach_onFile_events[of E v ex]
    by (auto simp: TGlob glob_then_def split_beta split: sum.splits completion.splits)
qed

lemma callback_no_exit: "snd (callback E v S ex t c) \<noteq> ProcessExit n"
  by (cases t)
    (auto simp: lstat_callback_def glob_then_def split_beta split: sum.splits completion.splits)

lemma callback_exitCode:
  assumes "callback E v S ex t c = (evs, Normal (c', new))"
  shows "c' = (if warning_printed evs then 1 else c)"
proof (cases t)
  case (TLstat p)
  show ?thesis
  proof (cases "lstat E p")
    case (Inl err)
    then show ?thesis using assms by (simp add: TLstat lstat_callback_def)
  next
    case (Inr isDirectory)
    show ?thesis
    proof (cases isDirectory)
      case True
      then show ?thesis using assms by (auto simp: TLstat lstat_callback_def Inr)
    next
      case False
      then obtain rep evs' where rep: "Validator E S p = Inr rep"
        and pr: "printReport E rep c = (evs', c')"
        and evs: "evs = log_debug v (Validating p) @ [ValidatorCall p] @ evs'"
        using assms
        by (auto simp: TLstat lstat_callback_def Inr split: sum.splits prod.splits)
      show ?thesis
        using printReport_exitCode[OF pr] by (simp add: evs log_debug_def)
    qed
  qed
next
  case (TGlob g)
  then obtain files where g: "glob E g = Inr files" and c: "c' = c"
    and evs: "evs = fst (forEach_onFile v ex files)"
    using assms by (auto simp: glob_then_def split: sum.splits prod.splits)
  have "\<not> warning_printed evs"
    unfolding evs by (rule forEach_onFile_no_warning)
  then show ?thesis using c by simp
qed

subsection \<open>The event loop\<close>

lemma run_loop_step:
  assumes "q \<noteq> []" and "i = sched q mod length q"
    and "callback E v S ex (q ! i) c = (evs, r)"
  shows "run_loop E v S ex sched q c =
    (case r of
       Normal (c', new) \<Rightarrow>
         (case run_loop E v S ex sched (take i q @ drop (Suc i) q @ new) c' of
            (out, evs') \<Rightarrow> (out, evs @ evs'))
     | ProcessExit n \<Rightarrow> (Exited n, evs)
     | Uncaught e \<Rightarrow> (Crashed e, evs))"
  using assms by (cases q; cases r) (auto simp: Let_def)

lemma run_loop_induct [consumes 0, case_names empty step]:
  assumes empty: "\<And>c. P [] c"
    and step: "\<And>q c i evs r. q \<noteq> [] \<Longrightarrow> i = sched q mod length q \<Longrightarrow>
      callback E v S ex (q ! i) c = (evs, r) \<Longrightarrow>
      (\<And>c' new. r = Normal (c', new) \<Longrightarrow> P (take i q @ drop (Suc i) q @ new) c') \<Longrightarrow> P q c"
  shows "P q c"
proof (induction q arbitrary: c rule: measure_induct_rule[where f = "\<lambda>q. sum_list (map (weight E) q)"])
  case (less q)
  show ?case
  proof (cases "q = []")
    case True
    then show ?thesis using empty by simp
  next
    case False
    define i where "i = sched q mod length q"
    have i: "i < length q" using False by (simp add: i_def)
    obtain evs r where cb: "callback E v S ex (q ! i) c = (evs, r)"
      by (cases "callback E v S ex (q ! i) c")
    show ?thesis
    proof (rule step[OF False i_def cb])
      fix c' new
      assume r: "r = Normal (c', new)"
      have "sum_list (map (weight E) (take i q @ drop (Suc i) q @ new))
          < sum_list (map (weight E) q)"
        using run_loop_decreases[of evs "(c', new)" E v S ex q i c c' new] cb r i by simp
      then show "P (take i q @ drop (Suc i) q @ new) c'" by (rule less)
    qed
  qed
qed

lemma run_loop_events: "list_all (loop_event E) (snd (run_loop E v S ex sched q c))"
proof (induction q c rule: run_loop_induct[where E = E and v = v and S = S and ex = ex and sched = sched])
  case (empty c)
  show ?case by simp
next
  case (step q c i evs r)
  have "list_all (loop_event E) evs"
    using callback_events[of E v S ex "q ! i" c] step(3) by simp
  then show ?case
    using step(4) by (auto simp: run_loop_step[where sched = sched, OF step(1,2,3)] split_beta split: completion.splits)
qed

lemma run_loop_exitCode:
  "run_loop E v S ex sched q c = (Exited n, tr) \<Longrightarrow> n = (if warning_printed tr then 1 else c)"
proof (induction q c arbitrary: n tr rule: run_loop_induct[where E = E and v = v and S = S and ex = ex and sched = sched])
  case (empty c)
  then show ?case by simp
next
  case (step q c i evs r)
  show ?case
  proof (cases r)
    case (Normal x)
    obtain c' new where x: "x = (c', new)" by (cases x)
    obtain out evs' where rl:
      "run_loop E v S ex sched (take i q @ drop (Suc i) q @ new) c' = (out, evs')"
      by (cases "run_loop E v S ex sched (take i q @ drop (Suc i) q @ new) c'")
    have eq: "out = Exited n" "tr = evs @ evs'"
      using step.prems by (simp_all add: run_loop_step[where sched = sched, OF step(1,2,3)] Normal x rl)
    have "n = (if warning_printed evs' then 1 else c')"
      using step(4)[of c' new n evs'] rl eq Normal x by simp
    moreover have "c' = (if warning_printed evs then 1 else c)"
      using callback_exitCode[of E v S ex "q ! i" c evs c' new] step(3) Normal x by simp
    ultimately show ?thesis by (simp add: eq)
  next
    case (ProcessExit m)
    then show ?thesis using callback_no_exit[of E v S ex "q ! i" c m] step(3) by simp
  next
    case (Uncaught e)
    then show ?thesis using step.prems by (simp add: run_loop_step[where sched = sched, OF step(1,2,3)])
  qed
qed

subsection \<open>Kinds of events\<close>

lemma warning_line_kinds:
  "warning_line e \<Longrightarrow> \<not> setup_event e \<and> \<not> manifest_event e \<and> \<not> validation_attempt e"
  by (cases e rule: warning_line.cases) auto

lemma validation_attempt_kinds: "validation_attempt e \<Longrightarrow> \<not> setup_event e"
  by (cases e rule: validation_attempt.cases) auto

lemma input_event_manifest: "input_event e \<Longrightarrow> manifest_event e"
  by (cases e rule: manifest_event.cases) auto

lemma setup_events_quiet:
  assumes "list_all setup_event evs"
  shows "\<not> warning_printed evs" and "\<not> list_ex validation_attempt evs"
    and "ValidatorCall p \<notin> set evs" and "ReadFileCall x \<notin> set evs"
  using assms warning_line_kinds validation_attempt_kinds
  by (auto simp: list_all_iff list_ex_iff warning_printed_def)

lemma manifest_events_quiet:
  assumes "list_all manifest_event evs"
  shows "\<not> warning_printed evs" and "ValidatorCall p \<notin> set evs"
  using assms warning_line_kinds
  by (auto simp: list_all_iff list_ex_iff warning_printed_def)

lemma input_events_quiet:
  assumes "list_all input_event evs"
  shows "\<not> warning_printed evs" and "ValidatorCall p \<notin> set evs" and "ReadFileCall x \<notin> set evs"
    and "list_all manifest_event evs"
  using assms warning_line_kinds input_event_manifest
  by (auto simp: list_all_iff list_ex_iff warning_printed_def)

lemma loop_events_quiet:
  assumes "list_all (loop_event E) evs"
  shows "ValidatorCall p \<in> set evs \<Longrightarrow> lstat E p = Inr False"
    and "ReadFileCall x \<notin> set evs" and "ExistsSync q \<notin> set evs" and "GlobCall g \<notin> set evs"
  using assms by (auto simp: list_all_iff)

subsection \<open>The manifest and the dispatch\<close>

lemma readFile_callback_events:
  "list_all manifest_event (fst (readFile_callback E v f))"
proof -
  have "list_all manifest_event (fst (processInput E v items))" for items
    using processInput_events[of E v items] input_events_quiet(4)
    by (cases "processInput E v items") auto
  then show ?thesis
    by (auto simp: readFile_callback_def log_debug_def split_beta
        split: sum.splits option.splits)
qed

lemma readFile_callback_exit:
  "readFile_callback E v f = (evs, r) \<Longrightarrow> (\<exists>ts. r = Normal ts) \<or> r = ProcessExit 0"
  by (auto simp: readFile_callback_def split_beta split: sum.splits if_splits)

text \<open>The four ways the last statement of the script can go.\<close>

lemma dispatch_cases [consumes 0, case_names missing usage manifest arguments]:
  obtains
    (missing) "args c = []" and "\<not> existsSync E (pathResolve E (json S))"
      and "dispatch E c S ex sched =
        (Crashed ''TypeError [ERR_INVALID_ARG_TYPE]'',
         [ExistsSync (pathResolve E (json S)), ReadFileCall None])"
  | (usage) evs where "args c = []" and "existsSync E (pathResolve E (json S))"
      and "readFile_callback E (verbose c) (pathResolve E (json S)) = (evs, ProcessExit 0)"
      and "dispatch E c S ex sched =
        (Exited 0, [ExistsSync (pathResolve E (json S)),
                    ReadFileCall (Some (pathResolve E (json S)))] @ evs)"
  | (manifest) evs ts out tr where "args c = []" and "existsSync E (pathResolve E (json S))"
      and "readFile_callback E (verbose c) (pathResolve E (json S)) = (evs, Normal ts)"
      and "run_loop E (verbose c) S ex sched ts 0 = (out, tr)"
      and "dispatch E c S ex sched =
        (out, [ExistsSync (pathResolve E (json S)),
               ReadFileCall (Some (pathResolve E (json S)))] @ evs @ tr)"
  | (arguments) evs ts out tr where "args c \<noteq> []"
      and "processInput E (verbose c) (map JStr (args c)) = (evs, ts, None)"
      and "run_loop E (verbose c) S ex sched ts 0 = (out, tr)"
      and "dispatch E c S ex sched = (out, evs @ tr)"
proof (cases "args c = []")
  case True
  show ?thesis
  proof (cases "existsSync E (pathResolve E (json S))")
    case False
    then show ?thesis using True missing by (simp add: dispatch_def resolve_def Let_def)
  next
    case ex: True
    define f where "f = pathResolve E (json S)"
    obtain evs r where cb: "readFile_callback E (verbose c) f = (evs, r)"
      by (cases "readFile_callback E (verbose c) f")
    from readFile_callback_exit[OF cb] show ?thesis
    proof
      assume "\<exists>ts. r = Normal ts"
      then obtain ts where r: "r = Normal ts" ..
      obtain out tr where rl: "run_loop E (verbose c) S ex sched ts 0 = (out, tr)"
        by (cases "run_loop E (verbose c) S ex sched ts 0")
      have "dispatch E c S ex sched = (out, [ExistsSync f, ReadFileCall (Some f)] @ evs @ tr)"
        using True ex by (simp add: dispatch_def resolve_def Let_def f_def[symmetric] cb r rl)
      then show ?thesis using manifest[OF True ex _ rl] cb r unfolding f_def by simp
    next
      assume r: "r = ProcessExit 0"
      have "dispatch E c S ex sched = (Exited 0, [ExistsSync f, ReadFileCall (Some f)] @ evs)"
        using True ex by (simp add: dispatch_def resolve_def Let_def f_def[symmetric] cb r)
      then show ?thesis using usage[OF True ex] cb r unfolding f_def by simp
    qed
  qed
next
  case False
  obtain evs ts thrown where pi: "processInput E (verbose c) (map JStr (args c)) = (evs, ts, thrown)"
    by (cases "processInput E (verbose c) (map JStr (args c))")
  have thrown: "thrown = None" using processInput_strings[OF pi] by simp
  obtain out tr where rl: "run_loop E (verbose c) S ex sched ts 0 = (out, tr)"
    by (cases "run_loop E (verbose c) S ex sched ts 0")
  have "dispatch E c S ex sched = (out, evs @ tr)"
    using False by (simp add: dispatch_def pi thrown rl)
  then show ?thesis using arguments[OF False _ rl] pi thrown by simp
qed

lemma run_loop_validator:
  assumes "run_loop E v S ex sched q c = (out, tr)" and "ValidatorCall p \<in> set tr"
  shows "lstat E p = Inr False"
  using run_loop_events[of E v S ex sched q c] assms loop_events_quiet(1) by simp

lemma dispatch_validator:
  assumes "dispatch E c S ex sched = (out, tr)" and "ValidatorCall p \<in> set tr"
  shows "lstat E p = Inr False"
proof (cases rule: dispatch_cases[of c E S ex sched])
  case missing
  then show ?thesis using assms by simp
next
  case (usage evs)
  have "ValidatorCall p \<notin> set evs"
    using readFile_callback_events[of E "verbose c" "pathResolve E (json S)"]
      manifest_events_quiet(2) usage(3) by simp
  then show ?thesis using assms usage(4) by auto
next
  case (manifest evs ts out' tr')
  have "ValidatorCall p \<notin> set evs"
    using readFile_callback_events[of E "verbose c" "pathResolve E (json S)"]
      manifest_events_quiet(2) manifest(3) by simp
  then have "ValidatorCall p \<in> set tr'" using assms manifest(5) by auto
  then show ?thesis using run_loop_validator[OF manifest(4)] by simp
next
  case (arguments evs ts out' tr')
  have "ValidatorCall p \<notin> set evs"
    using processInput_events[OF arguments(2)] input_events_quiet(2) by simp
  then have "ValidatorCall p \<in> set tr'" using assms arguments(4) by auto
  then show ?thesis using run_loop_validator[OF arguments(3)] by simp
qed

lemma dispatch_exitCode:
  assumes "dispatch E c S ex sched = (Exited n, tr)"
  shows "n = (if warning_printed tr then 1 else 0)"
proof (cases rule: dispatch_cases[of c E S ex sched])
  case missing
  then show ?thesis using assms by simp
next
  case (usage evs)
  have "\<not> warning_printed evs"
    using readFile_callback_events[of E "verbose c" "pathResolve E (json S)"]
      manifest_events_quiet(1) usage(3) by simp
  then show ?thesis using assms usage(4) by auto
next
  case (manifest evs ts out' tr')
  have "\<not> warning_printed evs"
    using readFile_callback_events[of E "verbose c" "pathResolve E (json S)"]
      manifest_events_quiet(1) manifest(3) by simp
  moreover have "out' = Exited n" using assms manifest(5) by simp
  ultimately show ?thesis
    using run_loop_exitCode[of E "verbose c" S ex sched ts 0 n tr'] manifest(4,5) assms by auto
next
  case (arguments evs ts out' tr')
  have "\<not> warning_printed evs"
    using processInput_events[OF arguments(2)] input_events_quiet(1) by simp
  moreover have "out' = Exited n" using assms arguments(4) by simp
  ultimately show ?thesis
    using run_loop_exitCode[of E "verbose c" S ex sched ts 0 n tr'] arguments(3,4) assms by auto
qed

lemma loop_events_no_red_line:
  assumes "types_WARNING E = None" and "list_all (loop_event E) evs"
  shows "\<not> warning_printed evs"
proof -
  have "\<not> warning_line e" if "loop_event E e" for e
    using that assms(1) by (cases e rule: warning_line.cases) auto
  then show ?thesis
    using assms(2) by (auto simp: warning_printed_def list_all_iff list_ex_iff)
qed

lemma dispatch_no_red_line:
  assumes "types_WARNING E = None" and "dispatch E c S ex sched = (out, tr)"
  shows "\<not> warning_printed tr"
proof (cases rule: dispatch_cases[of c E S ex sched])
  case missing
  then show ?thesis using assms by auto
next
  case (usage evs)
  have "\<not> warning_printed evs"
    using readFile_callback_events[of E "verbose c" "pathResolve E (json S)"]
      manifest_events_quiet(1) usage(3) by simp
  then show ?thesis using assms usage(4) by auto
next
  case (manifest evs ts out' tr')
  have "\<not> warning_printed evs"
    using readFile_callback_events[of E "verbose c" "pathResolve E (json S)"]
      manifest_events_quiet(1) manifest(3) by simp
  moreover have "\<not> warning_printed tr'"
    using loop_events_no_red_line[OF assms(1)]
      run_loop_events[of E "verbose c" S ex sched ts 0] manifest(4) by simp
  ultimately show ?thesis using assms manifest(5) by auto
next
  case (arguments evs ts out' tr')
  have "\<not> warning_printed evs"
    using processInput_events[OF arguments(2)] input_events_quiet(1) by simp
  moreover have "\<not> warning_printed tr'"
    using loop_events_no_red_line[OF assms(1)]
      run_loop_events[of E "verbose c" S ex sched ts 0] arguments(3) by simp
  ultimately show ?thesis using assms arguments(4) by auto
qed

lemma dispatch_arguments_no_readFile:
  assumes "args c \<noteq> []"
  shows "ReadFileCall x \<notin> set (snd (dispatch E c S ex sched))"
proof (cases rule: dispatch_cases[of c E S ex sched])
  case (arguments evs ts out tr)
  have "ReadFileCall x \<notin> set evs"
    using processInput_events[OF arguments(2)] input_events_quiet(3) by simp
  moreover have "ReadFileCall x \<notin> set tr"
    using run_loop_events[of E "verbose c" S ex sched ts 0] loop_events_quiet(2) arguments(3)
    by simp
  ultimately show ?thesis using arguments(4) by simp
qed (use assms in simp_all)

subsection \<open>The script as a whole\<close>

lemma parse_editorconfig_probes:
  "parse_editorconfig E fs cur = (evs, r) \<Longrightarrow> ExistsSync p \<in> set evs \<Longrightarrow>
   p \<in> pathResolve E ` set fs"
  by (induction fs arbitrary: cur evs r)
    (fastforce simp: checkEditorConfig_cases split: prod.splits if_splits)+

lemma make_settings_probes:
  "make_settings E c pe = (evs, r) \<Longrightarrow> ExistsSync p \<in> set evs \<Longrightarrow>
   p = pathResolve E DEFAULT_EDITORCONFIG_NAME"
  by (auto simp: make_settings_def checkEditorConfig_cases split: if_splits)

text \<open>
  The three ways the script can go: a fatal exit during setup, an exclusion pattern that
  does not compile, or the dispatch after a setup that only probed for files and logged.
\<close>

lemma main_cases [consumes 0, case_names fatal regexp run]:
  obtains
    (fatal) pre where "main E c sched = (Exited 1, pre)" and "list_all setup_event pre"
      and "pre \<noteq> []" and "fatal_line (last pre)"
      and "\<forall>p. ExistsSync p \<in> set pre \<longrightarrow>
            p \<in> pathResolve E ` (set (opt_editorconfig c) \<union> {DEFAULT_EDITORCONFIG_NAME})"
  | (regexp) e pre where "main E c sched = (Crashed e, pre)" and "list_all setup_event pre"
      and "\<forall>p. ExistsSync p \<in> set pre \<longrightarrow>
            p \<in> pathResolve E ` (set (opt_editorconfig c) \<union> {DEFAULT_EDITORCONFIG_NAME})"
  | (run) pre program_editorconfig evs S ex out tr where
      "make_settings E c program_editorconfig = (evs, Normal S)"
      and "excludes_of E (exclude S) = Inr ex"
      and "dispatch E c S ex sched = (out, tr)"
      and "main E c sched = (out, pre @ tr)"
      and "list_all setup_event pre"
      and "\<forall>p. ExistsSync p \<in> set pre \<longrightarrow>
            p \<in> pathResolve E ` (set (opt_editorconfig c) \<union> {DEFAULT_EDITORCONFIG_NAME})"
proof -
  obtain evs1 r1 where p: "parse_editorconfig E (opt_editorconfig c) None = (evs1, r1)"
    by (cases "parse_editorconfig E (opt_editorconfig c) None")
  note e1 = parse_editorconfig_events[OF p]
  show ?thesis
  proof (cases "\<exists>pe. r1 = Normal pe")
    case False
    then have "r1 = ProcessExit 1 \<and> evs1 \<noteq> [] \<and> fatal_line (last evs1)"
      using parse_editorconfig_not_Normal[OF p] by simp
    then show ?thesis
      using fatal[of evs1] e1 parse_editorconfig_probes[OF p] by (auto simp: main_def p)
  next
    case True
    then obtain pe where r1: "r1 = Normal pe" ..
    obtain evs2 r2 where m: "make_settings E c pe = (evs2, r2)"
      by (cases "make_settings E c pe")
    note e2 = make_settings_events[OF m]
    show ?thesis
    proof (cases "\<exists>S. r2 = Normal S")
      case False
      then have "r2 = ProcessExit 1 \<and> evs2 \<noteq> [] \<and> fatal_line (last evs2)"
        using make_settings_not_Normal[OF m] by simp
      then show ?thesis
        using fatal[of "evs1 @ evs2"] e1 e2 parse_editorconfig_probes[OF p]
          make_settings_probes[OF m]
        by (auto simp: main_def p r1 m)
    next
      case True
      then obtain S where r2: "r2 = Normal S" ..
      define pre where "pre = evs1 @ evs2 @ log_debug (verbose c) (UsingSettings S)
        @ log_debug (verbose c) (PassedArgs (args c))"
      have pre: "list_all setup_event pre"
        using e1 e2 by (simp add: pre_def log_debug_def)
      have probes: "\<forall>p. ExistsSync p \<in> set pre \<longrightarrow>
            p \<in> pathResolve E ` (set (opt_editorconfig c) \<union> {DEFAULT_EDITORCONFIG_NAME})"
        using parse_editorconfig_probes[OF p] make_settings_probes[OF m]
        by (auto simp: pre_def log_debug_def)
      show ?thesis
      proof (cases "excludes_of E (exclude S)")
        case (Inl e)
        then have "main E c sched = (Crashed e, pre)"
          by (simp add: main_def p r1 m r2 pre_def)
        then show ?thesis using regexp pre probes by simp
      next
        case (Inr ex)
        obtain out tr where d: "dispatch E c S ex sched = (out, tr)"
          by (cases "dispatch E c S ex sched")
        have "main E c sched = (out, pre @ tr)"
          by (simp add: main_def p r1 m r2 Inr d pre_def)
        then show ?thesis using run[OF _ Inr d _ pre probes] m r2 by simp
      qed
    qed
  qed
qed

subsection \<open>More facts for the claims\<close>

lemma processInput_probes:
  "processInput E v (map JStr as) = (evs, ts, thrown) \<Longrightarrow> ExistsSync p \<in> set evs \<Longrightarrow>
   p \<in> pathResolve E ` set as"
  by (induction as arbitrary: evs ts thrown)
    (fastforce simp: resolve_def validate_def log_debug_def Let_def
      split: prod.splits if_splits)+

lemma excludes_of_sources: "excludes_of E rs = Inr ex \<Longrightarrow> map fst ex = rs"
  by (induction rs arbitrary: ex) (auto split: sum.splits)

lemma parse_exclude_default: "foldl (\<lambda>memo v. collect v memo) acc xs = acc @ xs"
  by (induction xs arbitrary: acc) (simp_all add: collect_def)

lemma some_exclude_match:
  "e \<in> set ex \<Longrightarrow> snd e p \<Longrightarrow> snd (some_exclude v ex p)"
  by (induction ex) (auto simp: Let_def split_beta)

lemma onFile_excluded:
  assumes "e \<in> set ex" and "snd e p"
  shows "snd (onFile v ex p) = [] \<and> LstatCall p \<notin> set (fst (onFile v ex p))"
proof -
  have "LstatCall p \<notin> set (fst (some_exclude v ex p))"
    by (induction ex) (auto simp: Let_def split_beta log_debug_def)
  then show ?thesis
    using some_exclude_match[OF assms, of v] by (simp add: onFile_def split_beta)
qed

lemma manifest_error_logged:
  assumes "readFile E f = Inl err \<or> (\<exists>d. readFile E f = Inr d \<and> JSON_parse E d = Inl err)"
  shows "readFile_callback E v f =
    (log_debug v (ReadingGlobs f) @ [Log Error (FailedJson err)], Normal [])"
  using assms by (auto simp: readFile_callback_def)

section \<open>The claims\<close>

subsection \<open>Exclusion and literal arguments\<close>


subsection \<open>The exit code\<close>

text \<open>
  C2. The claim: the exit code is 1 exactly when a printed report holds an entry of
  severity warning or error. \<open>printReport\<close> compares the lower-cased type of an entry with
  \<open>types.WARNING\<close> and sets \<open>exitCode = 1\<close> on equality; but \<open>types.WARNING\<close> is
  \<open>undefined\<close> under the namespace import, so the comparison never holds. In the run
  below the validator reports a violation of type \<open>warning\<close> in \<open>src/a.js\<close>: the line is
  printed, green, and the process exits with code 0. The second run differs only in
  \<open>types.WARNING\<close> being the string \<open>warning\<close>: there the exit code is 1.
\<close>

theorem warning_entry_exits_0:
  "main world (no_options\<lparr>args := [''src/*'']\<rparr>) fifo =
     (Exited 0,
      [ExistsSync ''/w/.editorconfig'', Log Info (UsingEditorconfig ''/w/.editorconfig''),
       ExistsSync ''/w/src/*'', GlobCall ''src/*'',
       LstatCall ''src/a.js'', LstatCall ''src/lib'', LstatCall ''src/normalize.css'',
       ValidatorCall ''src/a.js'', Log Error (FileHeader ''/w/src/a.js''),
       Log Error (LineReport 3 ''Unexpected tabs'' ''warning'' False),
       ValidatorCall ''src/normalize.css''])
   \<and> fst (main (world\<lparr>types_WARNING := Some ''warning''\<rparr>)
          (no_options\<lparr>args := [''src/*'']\<rparr>) fifo) = Exited 1"
  by code_simp

text \<open>
  In general: the exit code of a run that ends through \<open>process.exit\<close> without a fatal
  setup error is 1 if a report line was printed red and 0 otherwise, for every order of
  the callbacks; and while \<open>types.WARNING\<close> is \<open>undefined\<close> no line is red, so the
  exit code is 0 whatever the reports hold.
\<close>

lemma exit_code_red_line:
  assumes "main E c sched = (Exited n, tr)" and "\<not> fatal_logged tr"
  shows "n = (if warning_printed tr then 1 else 0)"
proof (cases rule: main_cases[of E c sched])
  case (fatal pre)
  then have "fatal_logged pre"
    using last_in_set[of pre] by (auto simp: fatal_logged_def list_ex_iff)
  then show ?thesis using assms fatal(1) by simp
next
  case (regexp e pre)
  then show ?thesis using assms by simp
next
  case (run pre program_editorconfig evs S ex out tr')
  have "dispatch E c S ex sched = (Exited n, tr')" and tr: "tr = pre @ tr'"
    using assms(1) run(3,4) by simp_all
  then have "n = (if warning_printed tr' then 1 else 0)"
    using dispatch_exitCode by blast
  then show ?thesis
    using setup_events_quiet(1)[OF run(5)] by (simp add: tr)
qed

lemma exit_code_never_set:
  assumes "types_WARNING E = None"
    and "main E c sched = (Exited n, tr)" and "\<not> fatal_logged tr"
  shows "n = 0"
proof (cases rule: main_cases[of E c sched])
  case (fatal pre)
  then have "fatal_logged pre"
    using last_in_set[of pre] by (auto simp: fatal_logged_def list_ex_iff)
  then show ?thesis using assms fatal(1) by simp
next
  case (regexp e pre)
  then show ?thesis using assms by simp
next
  case (run pre program_editorconfig evs S ex out tr')
  have d: "dispatch E c S ex sched = (Exited n, tr')"
    using assms(2) run(3,4) by simp
  have "\<not> warning_printed tr'"
    using dispatch_no_red_line[OF assms(1) d] .
  then show ?thesis using dispatch_exitCode[OF d] by simp
qed

lemma run_src_lifo:
  "main world (no_options\<lparr>args := [''src/*'', ''src'']\<rparr>) lifo =
     (Exited 0,
      [ExistsSync ''/w/.editorconfig'', Log Info (UsingEditorconfig ''/w/.editorconfig''),
       ExistsSync ''/w/src/*'', GlobCall ''src/*'', ExistsSync ''/w/src'', LstatCall ''/w/src'',
       LstatCall ''src/a.js'', LstatCall ''src/lib'', LstatCall ''src/normalize.css'',
       ValidatorCall ''src/normalize.css'', ValidatorCall ''src/a.js'',
       Log Error (FileHeader ''/w/src/a.js''),
       Log Error (LineReport 3 ''Unexpected tabs'' ''warning'' False)])"
  by code_simp

subsection \<open>The editorconfig file\<close>

text \<open>
  C3, as claimed: without \<open>--editorconfig\<close> and without a \<open>.editorconfig\<close> in the working
  directory the program goes on with \<open>editorconfig = null\<close>. It does not: the default
  name goes through \<open>checkEditorConfig\<close> as well, whose \<open>log.fatal\<close> exits the process
  with code 1 before the settings exist.
\<close>

theorem default_editorconfig_missing_exits:
  "main (world_without ''/w/.editorconfig'') (no_options\<lparr>args := [''README.md'']\<rparr>) fifo =
     (Exited 1,
      [ExistsSync ''/w/.editorconfig'', Log Fatal (SpecifiedMissing ''.editorconfig'')])"
  by code_simp

text \<open>
  C3, amended: without \<open>--editorconfig\<close> and without a \<open>.editorconfig\<close> in the working
  directory the program logs the fatal error and terminates with exit code 1; it does
  nothing else.
\<close>

theorem default_editorconfig_missing_fatal:
  assumes "opt_editorconfig c = []"
    and "\<not> existsSync E (pathResolve E DEFAULT_EDITORCONFIG_NAME)"
  shows "main E c sched =
    (Exited 1,
     [ExistsSync (pathResolve E DEFAULT_EDITORCONFIG_NAME),
      Log Fatal (SpecifiedMissing DEFAULT_EDITORCONFIG_NAME)])"
  using assms
  by (simp add: main_def make_settings_def program_property_def checkEditorConfig_cases)

theorem default_editorconfig_missing_fatal_witness:
  "opt_editorconfig no_options = []
   \<and> \<not> existsSync (world_without ''/w/.editorconfig'')
         (pathResolve (world_without ''/w/.editorconfig'') DEFAULT_EDITORCONFIG_NAME)
   \<and> main (world_without ''/w/.editorconfig'') no_options lifo =
       (Exited 1,
        [ExistsSync ''/w/.editorconfig'', Log Fatal (SpecifiedMissing ''.editorconfig'')])"
proof -
  have 1: "opt_editorconfig no_options = []"
    by (simp add: no_options_def)
  have 2: "\<not> existsSync (world_without ''/w/.editorconfig'')
         (pathResolve (world_without ''/w/.editorconfig'') DEFAULT_EDITORCONFIG_NAME)"
    by (simp add: world_without_def world_def DEFAULT_EDITORCONFIG_NAME_def)
  show ?thesis
    using 1 2 default_editorconfig_missing_fatal[OF 1 2, of lifo]
    by (simp add: world_without_def world_def DEFAULT_EDITORCONFIG_NAME_def)
qed

text \<open>
  C4. If \<open>--editorconfig\<close> names a file that does not exist, the process terminates with
  exit code 1: the fatal message is the last thing it does, and before it there are only
  the probes and messages of option parsing, no \<open>stat\<close>, no glob expansion, no read of
  the manifest and no call of the validator.
\<close>

theorem missing_editorconfig_flag_fatal:
  assumes "f \<in> set (opt_editorconfig c)" and "\<not> existsSync E (pathResolve E f)"
  shows "fst (main E c sched) = Exited 1
    \<and> fatal_line (last (snd (main E c sched)))
    \<and> \<not> list_ex validation_attempt (snd (main E c sched))
    \<and> (\<forall>x. ReadFileCall x \<notin> set (snd (main E c sched)))"
proof -
  obtain evs r where p: "parse_editorconfig E (opt_editorconfig c) None = (evs, r)"
    by (cases "parse_editorconfig E (opt_editorconfig c) None")
  have "\<forall>x. r \<noteq> Normal x"
    using parse_editorconfig_missing[OF p assms] by simp
  then have r: "r = ProcessExit 1" and last: "fatal_line (last evs)"
    using parse_editorconfig_not_Normal[OF p] by simp_all
  have m: "main E c sched = (Exited 1, evs)"
    by (simp add: main_def p r)
  show ?thesis
    using setup_events_quiet(2,4)[OF parse_editorconfig_events[OF p]] last by (simp add: m)
qed

theorem missing_editorconfig_flag_fatal_witness:
  "''missing.cfg'' \<in> set (opt_editorconfig (no_options\<lparr>opt_editorconfig := [''missing.cfg''], args := [''README.md'']\<rparr>))
   \<and> \<not> existsSync world (pathResolve world ''missing.cfg'')
   \<and> main world (no_options\<lparr>opt_editorconfig := [''missing.cfg''], args := [''README.md'']\<rparr>) fifo =
       (Exited 1, [ExistsSync ''/w/missing.cfg'', Log Fatal (SpecifiedMissing ''missing.cfg'')])"
proof -
  let ?c = "no_options\<lparr>opt_editorconfig := [''missing.cfg''], args := [''README.md'']\<rparr>"
  have 1: "''missing.cfg'' \<in> set (opt_editorconfig ?c)"
    by (simp add: no_options_def)
  have 2: "\<not> existsSync world (pathResolve world ''missing.cfg'')"
    by (simp add: world_def)
  have "fst (main world ?c fifo) = Exited 1"
    using missing_editorconfig_flag_fatal[OF 1 2, of fifo] by simp
  moreover have "snd (main world ?c fifo) =
      [ExistsSync ''/w/missing.cfg'', Log Fatal (SpecifiedMissing ''missing.cfg'')]"
    by code_simp
  ultimately show ?thesis using 1 2 by (simp add: prod_eq_iff)
qed

subsection \<open>Literal paths and glob patterns\<close>

text \<open>
  C5. \<open>processInput\<close> on the positional arguments makes exactly one call per argument, in
  the order of the arguments: \<open>lstat\<close> on the resolved path (the start of \<open>validate\<close>) for an
  argument that resolves to an existing path, the glob engine for any other. So the glob
  engine is never called for an argument that resolves, and always for one that does not.
  Nothing is thrown.
\<close>

theorem existing_argument_validated_directly:
  assumes "processInput E v (map JStr as) = (evs, ts, thrown)"
  shows "thrown = None
    \<and> filter is_call evs = map (call_for E) as
    \<and> ts = map (\<lambda>it. if resolves E it then TLstat (pathResolve E it) else TGlob it) as
    \<and> (\<forall>it \<in> set as. resolves E it \<longrightarrow> GlobCall it \<notin> set evs)
    \<and> (\<forall>it \<in> set as. \<not> resolves E it \<longrightarrow> GlobCall it \<in> set evs)"
proof -
  note main = processInput_strings[OF assms]
  have calls: "set (filter is_call evs) = call_for E ` set as"
    using main by simp
  have "GlobCall it \<notin> set evs" if "resolves E it" for it
  proof
    assume "GlobCall it \<in> set evs"
    then have "GlobCall it \<in> call_for E ` set as" using calls by auto
    then show False using that by (auto simp: call_for_def split: if_splits)
  qed
  moreover have "GlobCall it \<in> set evs" if "it \<in> set as" and "\<not> resolves E it" for it
  proof -
    have "call_for E it \<in> set (filter is_call evs)" using calls that(1) by simp
    then show ?thesis using that(2) by (simp add: call_for_def)
  qed
  ultimately show ?thesis using main by simp
qed

theorem existing_argument_validated_directly_witness:
  "processInput world False (map JStr [''README.md'', ''src/*'']) =
     ([ExistsSync ''/w/README.md'', LstatCall ''/w/README.md'',
       ExistsSync ''/w/src/*'', GlobCall ''src/*''],
      [TLstat ''/w/README.md'', TGlob ''src/*''], None)
   \<and> resolves world ''README.md'' \<and> \<not> resolves world ''src/*''
   \<and> GlobCall ''README.md'' \<notin> set (fst (processInput world False (map JStr [''README.md'', ''src/*''])))"
proof -
  have run: "processInput world False (map JStr [''README.md'', ''src/*'']) =
     ([ExistsSync ''/w/README.md'', LstatCall ''/w/README.md'',
       ExistsSync ''/w/src/*'', GlobCall ''src/*''],
      [TLstat ''/w/README.md'', TGlob ''src/*''], None)"
    by code_simp
  have r: "resolves world ''README.md''" "\<not> resolves world ''src/*''"
    by (simp_all add: resolves_def resolve_def world_def Let_def)
  show ?thesis
    using existing_argument_validated_directly[OF run] r unfolding run
    by (simp add: call_for_def)
qed

subsection \<open>Directories\<close>

text \<open>
  C6. When \<open>lstat\<close> reports a directory, its callback does nothing: no output, no call of
  the validator, \<open>exitCode\<close> unchanged. And in no run of the script, whatever the order of
  the callbacks and wherever the path came from, is the validator called on such a path.
\<close>

theorem directory_never_validated:
  assumes "lstat E p = Inr True"
  shows "lstat_callback E v S p n = ([], Normal n)
    \<and> ValidatorCall p \<notin> set (snd (main E c sched))"
proof -
  have "ValidatorCall p \<notin> set (snd (main E c sched))"
  proof (cases rule: main_cases[of E c sched])
    case (fatal pre)
    then show ?thesis using setup_events_quiet(3) by simp
  next
    case (regexp e pre)
    then show ?thesis using setup_events_quiet(3) by simp
  next
    case (run pre program_editorconfig evs S' ex out tr)
    have "ValidatorCall p \<notin> set tr"
      using dispatch_validator[OF run(3), of p] assms by auto
    then show ?thesis using setup_events_quiet(3)[OF run(5)] run(4) by simp
  qed
  then show ?thesis using assms by (simp add: lstat_callback_def)
qed

theorem directory_never_validated_witness:
  "lstat world ''src/lib'' = Inr True
   \<and> LstatCall ''src/lib'' \<in> set (snd (main world (no_options\<lparr>args := [''src/*'', ''src'']\<rparr>) lifo))
   \<and> ValidatorCall ''src/lib'' \<notin> set (snd (main world (no_options\<lparr>args := [''src/*'', ''src'']\<rparr>) lifo))
   \<and> lstat_callback world False \<lparr>editorconfig = ''.editorconfig'', ignores = IgnoreProfiles [],
        json = ''package.json'', exclude = []\<rparr> ''src/lib'' 0 = ([], Normal 0)"
proof -
  have d: "lstat world ''src/lib'' = Inr True"
    by (simp add: world_def)
  have "LstatCall ''src/lib'' \<in> set (snd (main world (no_options\<lparr>args := [''src/*'', ''src'']\<rparr>) lifo))"
    by (simp add: run_src_lifo)
  then show ?thesis
    using d directory_never_validated[OF d] by simp
qed

subsection \<open>The manifest\<close>

text \<open>
  C7. The claim: a manifest that is missing, unreadable or not valid JSON is logged as
  an error and the process goes on to a normal exit. For a manifest that is missing the
  script does not get that far: \<open>resolve\<close> returns \<open>null\<close>, which is passed to
  \<open>fs.readFile\<close>; the TypeError it throws is outside the \<open>try\<close> of the callback, and the
  process dies. The run below is the sample directory without \<open>package.json\<close>, no
  arguments given.
\<close>

theorem missing_manifest_crashes:
  "main (world_without ''/w/package.json'') no_options fifo =
     (Crashed ''TypeError [ERR_INVALID_ARG_TYPE]'',
      [ExistsSync ''/w/.editorconfig'', Log Info (UsingEditorconfig ''/w/.editorconfig''),
       ExistsSync ''/w/package.json'', ReadFileCall None])"
  by code_simp

text \<open>
  The other two cases of C7 do hold: a manifest that exists but cannot be read, or whose
  text is not JSON, is logged, nothing is validated, and the exit code is 0.
\<close>

lemma unreadable_manifest_logged:
  assumes "args c = []" and "existsSync E (pathResolve E (json S))"
    and "readFile E (pathResolve E (json S)) = Inl err
      \<or> (\<exists>d. readFile E (pathResolve E (json S)) = Inr d \<and> JSON_parse E d = Inl err)"
  shows "dispatch E c S ex sched =
    (Exited 0,
     [ExistsSync (pathResolve E (json S)), ReadFileCall (Some (pathResolve E (json S)))]
       @ log_debug (verbose c) (ReadingGlobs (pathResolve E (json S)))
       @ [Log Error (FailedJson err)])"
  using assms(1,2) manifest_error_logged[OF assms(3), of "verbose c"]
  by (simp add: dispatch_def resolve_def Let_def)

text \<open>
  C8. With no positional argument, a setup that succeeds, and a manifest that parses to a
  value whose property \<open>editorconfig-cli\<close> is absent or an empty array, the script prints
  "Nothing to do", shows the usage help, and the process ends with exit code 0; the
  trace holds the setup, the read of the manifest and these two steps, and no \<open>stat\<close>,
  glob expansion or call of the validator.
\<close>

theorem empty_manifest_shows_help:
  assumes "args c = []"
    and "snd (parse_editorconfig E (opt_editorconfig c) None) = Normal program_editorconfig"
    and "snd (make_settings E c program_editorconfig) = Normal S"
    and "excludes_of E (exclude S) = Inr ex"
    and "existsSync E (pathResolve E (json S))"
    and "readFile E (pathResolve E (json S)) = Inr data"
    and "JSON_parse E data = Inr parsed"
    and "get_config_property parsed = Inr None
      \<or> get_config_property parsed = Inr (Some (JArr []))"
  shows "fst (main E c sched) = Exited 0
    \<and> (\<exists>pre. list_all setup_event pre \<and>
         snd (main E c sched) =
           pre @ [ExistsSync (pathResolve E (json S)),
                  ReadFileCall (Some (pathResolve E (json S)))]
             @ log_debug (verbose c) (ReadingGlobs (pathResolve E (json S)))
             @ [Log Info NothingToDo, HelpCall])
    \<and> \<not> list_ex validation_attempt (snd (main E c sched))"
proof -
  obtain evs1 where p: "parse_editorconfig E (opt_editorconfig c) None = (evs1, Normal program_editorconfig)"
    using assms(2) by (cases "parse_editorconfig E (opt_editorconfig c) None") simp
  obtain evs2 where m: "make_settings E c program_editorconfig = (evs2, Normal S)"
    using assms(3) by (cases "make_settings E c program_editorconfig") simp
  define pre where "pre = evs1 @ evs2 @ log_debug (verbose c) (UsingSettings S)
    @ log_debug (verbose c) (PassedArgs (args c))"
  define f where "f = pathResolve E (json S)"
  have pre: "list_all setup_event pre"
    using parse_editorconfig_events[OF p] make_settings_events[OF m]
    by (simp add: pre_def log_debug_def)
  have cb: "readFile_callback E (verbose c) f =
      (log_debug (verbose c) (ReadingGlobs f) @ [Log Info NothingToDo, HelpCall], ProcessExit 0)"
    using assms(6,7,8) by (auto simp: readFile_callback_def f_def)
  have d: "dispatch E c S ex sched =
      (Exited 0, [ExistsSync f, ReadFileCall (Some f)]
         @ log_debug (verbose c) (ReadingGlobs f) @ [Log Info NothingToDo, HelpCall])"
    using assms(1,5) by (simp add: dispatch_def resolve_def Let_def f_def[symmetric] cb)
  have main: "main E c sched =
      (Exited 0, pre @ [ExistsSync f, ReadFileCall (Some f)]
         @ log_debug (verbose c) (ReadingGlobs f) @ [Log Info NothingToDo, HelpCall])"
    by (simp add: main_def p m assms(4) d pre_def)
  have "\<not> list_ex validation_attempt (snd (main E c sched))"
    using setup_events_quiet(2)[OF pre] by (auto simp: main log_debug_def list_ex_iff)
  then show ?thesis using pre main unfolding f_def by auto
qed

lemma run_no_arguments:
  "main world no_options fifo =
     (Exited 0,
      [ExistsSync ''/w/.editorconfig'', Log Info (UsingEditorconfig ''/w/.editorconfig''),
       ExistsSync ''/w/package.json'', ReadFileCall (Some ''/w/package.json''),
       Log Info NothingToDo, HelpCall])"
  by code_simp

theorem empty_manifest_shows_help_witness:
  "args no_options = []
   \<and> get_config_property (JObj []) = Inr None
   \<and> fst (main world no_options fifo) = Exited 0
   \<and> \<not> list_ex validation_attempt (snd (main world no_options fifo))
   \<and> HelpCall \<in> set (snd (main world no_options fifo))"
proof -
  let ?S = "\<lparr>editorconfig = ''.editorconfig'', ignores = IgnoreUndefined,
    json = ''package.json'', exclude = []\<rparr>"
  have 1: "args no_options = []"
    by (simp add: no_options_def)
  have 2: "snd (parse_editorconfig world (opt_editorconfig no_options) None) = Normal None"
    by (simp add: no_options_def)
  have 3: "snd (make_settings world no_options None) = Normal ?S"
    by code_simp
  have 4: "excludes_of world (exclude ?S) = Inr []"
    by simp
  have 5: "existsSync world (pathResolve world (json ?S))"
    by (simp add: world_def)
  have 6: "readFile world (pathResolve world (json ?S)) = Inr ''{}''"
    by (simp add: world_def)
  have 7: "JSON_parse world ''{}'' = Inr (JObj [])"
    by (simp add: world_def)
  have 8: "get_config_property (JObj []) = Inr None
      \<or> get_config_property (JObj []) = Inr (Some (JArr []))"
    by simp
  have "fst (main world no_options fifo) = Exited 0
      \<and> \<not> list_ex validation_attempt (snd (main world no_options fifo))"
    using empty_manifest_shows_help[OF 1 2 3 4 5 6 7 8, of fifo] by simp
  moreover have "HelpCall \<in> set (snd (main world no_options fifo))"
    by (simp add: run_no_arguments)
  ultimately show ?thesis using 1 by simp
qed

text \<open>
  C9. When at least one positional argument is given, \<open>readFile\<close> is never called, in
  whatever order the callbacks run; and the only paths whose existence is probed are
  those of the \<open>--editorconfig\<close> values, of the default \<open>.editorconfig\<close> and of the
  arguments themselves, so the manifest path is not looked at either (unless it is one
  of them).
\<close>

theorem manifest_only_without_arguments:
  assumes "args c \<noteq> []"
  shows "(\<forall>x. ReadFileCall x \<notin> set (snd (main E c sched)))
    \<and> (\<forall>p. ExistsSync p \<in> set (snd (main E c sched)) \<longrightarrow>
          p \<in> pathResolve E `
            (set (opt_editorconfig c) \<union> {DEFAULT_EDITORCONFIG_NAME} \<union> set (args c)))"
proof (cases rule: main_cases[of E c sched])
  case (fatal pre)
  then show ?thesis using setup_events_quiet(4) by auto
next
  case (regexp e pre)
  then show ?thesis using setup_events_quiet(4) by auto
next
  case (run pre program_editorconfig evs S ex out tr)
  have r: "ReadFileCall x \<notin> set tr" for x
    using dispatch_arguments_no_readFile[OF assms, of x E S ex sched] run(3) by simp
  have "p \<in> pathResolve E ` set (args c)" if "ExistsSync p \<in> set tr" for p
  proof (cases rule: dispatch_cases[of c E S ex sched])
    case (arguments evs' ts out' tr')
    have "ExistsSync p \<notin> set tr'"
      using run_loop_events[of E "verbose c" S ex sched ts 0] loop_events_quiet(3) arguments(3)
      by simp
    then have "ExistsSync p \<in> set evs'"
      using that arguments(4) run(3) by auto
    then show ?thesis using processInput_probes[OF arguments(2)] by simp
  qed (use assms in simp_all)
  then show ?thesis
    using r run(4,6) setup_events_quiet(4)[OF run(5)] by auto
qed

theorem manifest_only_without_arguments_witness:
  "args (no_options\<lparr>args := [''README.md'']\<rparr>) \<noteq> []
   \<and> (\<forall>x. ReadFileCall x \<notin> set (snd (main world (no_options\<lparr>args := [''README.md'']\<rparr>) lifo)))
   \<and> ExistsSync ''/w/package.json''
        \<notin> set (snd (main world (no_options\<lparr>args := [''README.md'']\<rparr>) lifo))
   \<and> ReadFileCall (Some ''/w/package.json'') \<in> set (snd (main world no_options lifo))"
proof -
  let ?c = "no_options\<lparr>args := [''README.md'']\<rparr>"
  have 1: "args ?c \<noteq> []"
    by simp
  have "ExistsSync ''/w/package.json'' \<notin> set (snd (main world ?c lifo))"
    by code_simp
  moreover have "ReadFileCall (Some ''/w/package.json'') \<in> set (snd (main world no_options lifo))"
    by code_simp
  ultimately show ?thesis
    using manifest_only_without_arguments[OF 1, of world lifo] by simp
qed

subsection \<open>The exclusion patterns\<close>

text \<open>
  C10. The claim: the values of \<open>-x\<close> are accumulated onto the default pattern
  \<open>/normalize.*\<close>, which is therefore in the exclusion list of every run, and the list is
  never empty. \<open>collect\<close> and the default given to \<open>.option\<close> do that for the value commander
  holds, but the script reads \<open>program.exclude\<close>, which commander 7 and later leave
  \<open>undefined\<close>: \<open>settings.exclude\<close> is then \<open>program.exclude || []\<close>, the empty list, and
  no pattern is compiled. The settings below are those of \<open>-x vendor -x dist\<close> in the
  sample directory; with commander 5 or 6 the same command line gives the list the claim
  describes.
\<close>

theorem exclude_list_empty:
  "make_settings world (no_options\<lparr>opt_exclude := [''vendor'', ''dist'']\<rparr>) None =
     ([ExistsSync ''/w/.editorconfig'', Log Info (UsingEditorconfig ''/w/.editorconfig'')],
      Normal \<lparr>editorconfig = ''.editorconfig'', ignores = IgnoreUndefined,
              json = ''package.json'', exclude = []\<rparr>)
   \<and> snd (make_settings legacy_world (no_options\<lparr>opt_exclude := [''vendor'', ''dist'']\<rparr>) None) =
       Normal \<lparr>editorconfig = ''.editorconfig'',
               ignores = IgnoreProfiles [''js-comments'', ''html-comments''],
               json = ''package.json'', exclude = [''/normalize.*'', ''vendor'', ''dist'']\<rparr>"
  by code_simp

text \<open>
  In general: whenever the settings are built, their \<open>exclude\<close> list is the default
  pattern followed by the values of \<open>-x\<close> if commander keeps option values as
  properties, and empty if it does not.
\<close>

lemma settings_exclude:
  assumes "make_settings E c held = (evs, Normal S)"
  shows "exclude S =
    (if storeOptionsAsProperties E then ''/normalize.*'' # opt_exclude c else [])"
proof -
  have "parse_exclude (opt_exclude c) = ''/normalize.*'' # opt_exclude c"
    by (simp add: parse_exclude_def parse_exclude_default)
  moreover have "exclude S =
      (if storeOptionsAsProperties E then parse_exclude (opt_exclude c) else [])"
    using assms
    by (auto simp: make_settings_def program_property_def
        split: prod.splits completion.splits if_splits)
  ultimately show ?thesis by simp
qed

end
